theory Spec2Isabelle
  imports Main "HOL-Library.Char_ord" "HOL-Library.List_Lexorder"
begin

section \<open>Python values shared by the two scripts\<close>

text \<open>
  Exceptions are values. \<open>RuntimeError\<close> is the one exception the scripts raise
  themselves (\<open>compress_with_ghostscript\<close>); \<open>CalledProcessError\<close> is what
  \<open>subprocess.run(..., check=True)\<close> raises on a non-zero exit status;
  \<open>LibraryError\<close> stands for whatever a call into the PDF library raises.
\<close>

datatype py_error = RuntimeError string | CalledProcessError int | LibraryError string

text \<open>A \<open>bytes\<close> object is a list of 8-bit characters.\<close>

type_synonym bytes = "char list"

section \<open>split\_pdf.py\<close>

subsection \<open>The writer and its serialisation\<close>

text \<open>
  A \<open>PdfWriter\<close> is modelled by the sequence of pages it holds (\<open>writer.pages\<close>);
  pages are opaque values of a type \<open>'p\<close>. \<open>PdfWriter()\<close> is the empty list,
  \<open>writer.add_page(page)\<close> appends, \<open>len(writer.pages)\<close> is \<open>length\<close>.
\<close>

type_synonym 'p writer = "'p list"

definition add_page :: "'p writer \<Rightarrow> 'p \<Rightarrow> 'p writer" where
  "add_page writer page = writer @ [page]"

text \<open>
  \<open>bytes_for_writer\<close> writes the writer into a fresh buffer and returns the buffer's
  value. The library's \<open>writer.write\<close> is the parameter \<open>serialize\<close>: a function of
  the page sequence (the same pages give the same bytes), about which nothing else is
  assumed; in particular sizes need not be additive or monotone in the pages.
\<close>

definition bytes_for_writer :: "('p writer \<Rightarrow> bytes) \<Rightarrow> 'p writer \<Rightarrow> bytes" where
  "bytes_for_writer serialize writer = serialize writer"

subsection \<open>remove\_last\_page\<close>

text \<open>
  The source asks \<open>hasattr(writer, "remove_page")\<close> first. Whether the installed
  library has the method, and what the method does, is not part of this repository, so
  the method is a parameter: \<open>None\<close> when the writer has no \<open>remove_page\<close>, and
  \<open>Some f\<close> when it has, \<open>f pages i\<close> being the outcome of
  \<open>writer.remove_page(i)\<close> on a writer holding \<open>pages\<close>: an exception, or the pages
  the (mutated) writer holds afterwards.

  The fallback returns the writer itself when it is empty, and otherwise a new writer
  to which the pages of the slice \<open>writer.pages[:-1]\<close> are added one by one.
\<close>

type_synonym 'p remove_page_method = "('p writer \<Rightarrow> int \<Rightarrow> py_error + 'p writer) option"

definition remove_last_page :: "'p remove_page_method \<Rightarrow> 'p writer \<Rightarrow> py_error + 'p writer" where
  "remove_last_page remove_page writer =
     (case remove_page of
        Some f \<Rightarrow> f writer (- 1)
      | None \<Rightarrow>
          if length writer = 0 then Inr writer
          else Inr (foldl add_page [] (butlast writer)))"

text \<open>
  \<open>PdfWriter.remove_page\<close> in the releases of the library that have it (with a
  release that has not, the fallback runs): a page number \<open>i\<close> with
  \<open>0 \<le> i < len(pages)\<close> removes that page; any other number, a negative one
  included, is reported as out of range in a log message, nothing is removed and
  nothing is raised.
\<close>

definition writer_remove_page :: "'p writer \<Rightarrow> int \<Rightarrow> py_error + 'p writer" where
  "writer_remove_page pages i =
     (if 0 \<le> i \<and> i < int (length pages)
      then Inr (take (nat i) pages @ drop (Suc (nat i)) pages)
      else Inr pages)"

text \<open>
  What the properties that hold in both branches need of \<open>remove_last_page\<close>: on a
  writer with more than one page (the only writers \<open>split_pdf\<close> passes to it) it
  returns, and the writer it returns has a page. Nothing is said about which pages
  that writer holds. Two ways of removing agree when they give the same outcome on
  every such writer.
\<close>

definition rollback_returns :: "'p remove_page_method \<Rightarrow> bool" where
  "rollback_returns remove_page =
     (\<forall>w. 1 < length w \<longrightarrow> (\<exists>w1. remove_last_page remove_page w = Inr w1 \<and> w1 \<noteq> []))"

definition same_removal :: "'p remove_page_method \<Rightarrow> 'p remove_page_method \<Rightarrow> bool" where
  "same_removal remove_page1 remove_page2 =
     (\<forall>w. 1 < length w \<longrightarrow> remove_last_page remove_page1 w = remove_last_page remove_page2 w)"

subsection \<open>Output files\<close>

text \<open>
  \<open>str(part_index)\<close> inside the f-string: the decimal digits of a natural number
  (\<open>part_index\<close> starts at 1 and is only ever incremented).
\<close>

definition digit_char :: "nat \<Rightarrow> char" where
  "digit_char d = ''0123456789'' ! d"

function str_nat :: "nat \<Rightarrow> string" where
  "str_nat n = (if n < 10 then [digit_char n] else str_nat (n div 10) @ [digit_char (n mod 10)])"
  by pat_completeness auto
termination
  by (relation "measure id") auto

declare str_nat.simps [simp del]

text \<open>\<open>f"{base_name}_part{part_index}.pdf"\<close>\<close>

definition part_file_name :: "string \<Rightarrow> nat \<Rightarrow> string" where
  "part_file_name base_name part_index = base_name @ ''_part'' @ str_nat part_index @ ''.pdf''"

text \<open>
  One \<open>output_path.write_bytes(...)\<close>: the file's name (the path is
  \<open>output_dir / part_name\<close>) and the bytes written. \<open>part_pages\<close> is a ghost
  field: the pages the writer held when it was serialised for this file, recorded so
  that properties of the partition can be stated.
\<close>

record 'p part =
  part_name :: string
  part_pages :: "'p list"
  part_bytes :: bytes

subsection \<open>split\_pdf\<close>

text \<open>
  The variables the loop updates: \<open>part_index\<close>, \<open>writer\<close>, and the files written
  so far, in the order of the writes.
\<close>

record 'p split_state =
  part_index :: nat
  writer :: "'p writer"
  written :: "'p part list"

text \<open>
  One iteration of \<open>for page_index, page in enumerate(reader.pages, start=1)\<close>
  (\<open>page_index\<close> is never read). \<open>max_bytes\<close> is the Python integer
  \<open>int(max_mb * 1024 * 1024)\<close>, which may be zero or negative; the floating-point
  product itself is outside the model.
\<close>

definition loop_body ::
  "'p remove_page_method \<Rightarrow> ('p writer \<Rightarrow> bytes) \<Rightarrow> string \<Rightarrow> int \<Rightarrow>
   'p split_state \<Rightarrow> 'p \<Rightarrow> py_error + 'p split_state" where
  "loop_body remove_page serialize base_name max_bytes s page =
     (let w = add_page (writer s) page;
          current_bytes = bytes_for_writer serialize w
      in if int (length current_bytes) > max_bytes \<and> length w > 1 then
           (case remove_last_page remove_page w of
              Inl e \<Rightarrow> Inl e
            | Inr w1 \<Rightarrow>
                let part_bytes1 = bytes_for_writer serialize w1;
                    out1 = written s @
                      [\<lparr>part_name = part_file_name base_name (part_index s),
                        part_pages = w1, part_bytes = part_bytes1\<rparr>];
                    index1 = part_index s + 1;
                    w2 = add_page [] page;
                    single_bytes = bytes_for_writer serialize w2
                in if int (length single_bytes) > max_bytes then
                     Inr \<lparr>part_index = index1 + 1, writer = [],
                          written = out1 @
                            [\<lparr>part_name = part_file_name base_name index1,
                              part_pages = w2, part_bytes = single_bytes\<rparr>]\<rparr>
                   else Inr \<lparr>part_index = index1, writer = w2, written = out1\<rparr>)
         else Inr (s\<lparr>writer := w\<rparr>))"

text \<open>The loop over \<open>reader.pages\<close>; an exception ends it.\<close>

fun split_loop ::
  "'p remove_page_method \<Rightarrow> ('p writer \<Rightarrow> bytes) \<Rightarrow> string \<Rightarrow> int \<Rightarrow>
   'p list \<Rightarrow> 'p split_state \<Rightarrow> py_error + 'p split_state" where
  "split_loop remove_page serialize base_name max_bytes [] s = Inr s"
| "split_loop remove_page serialize base_name max_bytes (page # rest) s =
     (case loop_body remove_page serialize base_name max_bytes s page of
        Inl e \<Rightarrow> Inl e
      | Inr s' \<Rightarrow> split_loop remove_page serialize base_name max_bytes rest s')"

text \<open>The flush after the loop: \<open>if len(writer.pages) > 0\<close>.\<close>

definition flush :: "('p writer \<Rightarrow> bytes) \<Rightarrow> string \<Rightarrow> 'p split_state \<Rightarrow> 'p part list" where
  "flush serialize base_name s =
     (if length (writer s) > 0 then
        written s @
          [\<lparr>part_name = part_file_name base_name (part_index s),
            part_pages = writer s, part_bytes = bytes_for_writer serialize (writer s)\<rparr>]
      else written s)"

text \<open>
  \<open>split_pdf\<close>, from the pages of the document that \<open>PdfReader\<close> has read: the
  files written, in order, or the exception that ended the run. Reading the input and
  creating the output directory are taken to succeed.
\<close>

definition split_pdf ::
  "'p remove_page_method \<Rightarrow> ('p writer \<Rightarrow> bytes) \<Rightarrow> string \<Rightarrow> int \<Rightarrow>
   'p list \<Rightarrow> py_error + 'p part list" where
  "split_pdf remove_page serialize base_name max_bytes document =
     (case split_loop remove_page serialize base_name max_bytes document
             \<lparr>part_index = 1, writer = [], written = []\<rparr> of
        Inl e \<Rightarrow> Inl e
      | Inr s \<Rightarrow> Inr (flush serialize base_name s))"

subsection \<open>Predicates on the files written\<close>

text \<open>
  Every file holds the serialisation of the pages recorded for it, has at least one
  page, and is within the ceiling unless it has exactly one page.
\<close>

definition parts_ok :: "('p writer \<Rightarrow> bytes) \<Rightarrow> int \<Rightarrow> 'p part list \<Rightarrow> bool" where
  "parts_ok serialize max_bytes parts =
     (\<forall>f \<in> set parts.
        part_bytes f = serialize (part_pages f) \<and> part_pages f \<noteq> [] \<and>
        (int (length (part_bytes f)) \<le> max_bytes \<or> length (part_pages f) = 1))"

text \<open>The k-th file written is named with the index k, counting from 1.\<close>

definition names_ok :: "string \<Rightarrow> 'p part list \<Rightarrow> bool" where
  "names_ok base_name parts =
     (map part_name parts = map (part_file_name base_name) [1..<Suc (length parts)])"

text \<open>
  The loop invariant of the fallback branch, \<open>d\<close> being the pages consumed so
  far: the files written and
  the live writer hold exactly those pages in order; the files are as above; the live
  writer is empty, within the ceiling, or a single page; \<open>part_index\<close> is one more
  than the number of files written.
\<close>

definition split_inv ::
  "('p writer \<Rightarrow> bytes) \<Rightarrow> string \<Rightarrow> int \<Rightarrow> 'p list \<Rightarrow> 'p split_state \<Rightarrow> bool" where
  "split_inv serialize base_name max_bytes d s =
     (concat (map part_pages (written s)) @ writer s = d \<and>
      parts_ok serialize max_bytes (written s) \<and>
      (writer s = [] \<or> int (length (serialize (writer s))) \<le> max_bytes \<or> length (writer s) = 1) \<and>
      part_index s = Suc (length (written s)) \<and>
      names_ok base_name (written s))"

text \<open>
  What holds of the files written in either branch, \<open>d\<close> being the pages consumed
  so far: every file has a page, \<open>part_index\<close> is one more than the number of files
  written, the files are numbered from 1, and no file has been written and the live
  writer is empty exactly when no page has been consumed.
\<close>

definition emit_inv :: "string \<Rightarrow> 'p list \<Rightarrow> 'p split_state \<Rightarrow> bool" where
  "emit_inv base_name d s =
     ((\<forall>f \<in> set (written s). part_pages f \<noteq> []) \<and>
      part_index s = Suc (length (written s)) \<and>
      names_ok base_name (written s) \<and>
      (written s = [] \<and> writer s = [] \<longleftrightarrow> d = []))"

text \<open>
  Two runs have made the same progress: same index, same live pages, same page
  groups written.
\<close>

definition same_progress :: "'p split_state \<Rightarrow> 'p split_state \<Rightarrow> bool" where
  "same_progress s t =
     (part_index s = part_index t \<and> writer s = writer t \<and>
      map part_pages (written s) = map part_pages (written t))"

subsection \<open>Serialisers for running the model\<close>

text \<open>
  Pages given by their sizes in bytes: a page sequence serialises to as many bytes as
  its pages' sizes add up to. The second serialiser writes other bytes of the same
  number.
\<close>

definition sized_serialize :: "nat writer \<Rightarrow> bytes" where
  "sized_serialize pages = replicate (sum_list pages) (CHR ''x'')"

definition sized_serialize_alt :: "nat writer \<Rightarrow> bytes" where
  "sized_serialize_alt pages = replicate (sum_list pages) (CHR ''y'')"

text \<open>
  Pages that can be told apart: a page is its number in the document and its size.
\<close>

definition labelled_serialize :: "(nat \<times> nat) writer \<Rightarrow> bytes" where
  "labelled_serialize pages = replicate (sum_list (map snd pages)) (CHR ''x'')"

section \<open>compresspdf.py\<close>

text \<open>
  What \<open>find_ghostscript\<close> reads from the machine: \<open>Path.exists\<close>, \<open>str\<close> of a
  path, \<open>shutil.which\<close>, and the results of the two \<open>glob\<close> calls under
  \<open>C:/Program Files/gs\<close> and \<open>C:/Program Files (x86)/gs\<close>. Paths are values of an
  ordered type, the order being the one \<open>sorted\<close> uses.
\<close>

record 'path gs_env =
  path_exists :: "'path \<Rightarrow> bool"
  path_str :: "'path \<Rightarrow> string"
  which :: "string \<Rightarrow> string option"
  glob_gswin64c :: "'path list"
  glob_gswin32c :: "'path list"

text \<open>Truth value of a \<open>str | None\<close>: \<open>None\<close> and the empty string are false.\<close>

definition truthy :: "string option \<Rightarrow> bool" where
  "truthy v = (case v of None \<Rightarrow> False | Some s \<Rightarrow> s \<noteq> [])"

definition py_or :: "string option \<Rightarrow> string option \<Rightarrow> string option" where
  "py_or a b = (if truthy a then a else b)"

text \<open>
  \<open>if explicit_path:\<close> tests a \<open>Path | None\<close>; a \<open>Path\<close> object is always true,
  so the branch is taken exactly when a path was given, and then discovery is not tried.
\<close>

definition find_ghostscript :: "('path::linorder) gs_env \<Rightarrow> 'path option \<Rightarrow> string option" where
  "find_ghostscript env explicit_path =
     (case explicit_path of
        Some p \<Rightarrow> if path_exists env p then Some (path_str env p) else None
      | None \<Rightarrow>
          let gs = py_or (py_or (which env ''gs'') (which env ''gswin64c'')) (which env ''gswin32c'')
          in if truthy gs then gs
             else
               let candidates = [] @ glob_gswin64c env @ glob_gswin32c env
               in if candidates \<noteq> [] then Some (path_str env (last (sort candidates)))
                  else None)"

definition pdf_setting :: "string \<Rightarrow> string" where
  "pdf_setting quality =
     (if quality = ''strong'' then ''/screen''
      else if quality = ''light'' then ''/prepress''
      else ''/ebook'')"

definition gs_not_found :: py_error where
  "gs_not_found =
     RuntimeError ''Ghostscript not found. Install it or use --method pikepdf, or pass --gs-path.''"

text \<open>
  \<open>subprocess.run(cmd, check=True)\<close> is the parameter \<open>run\<close>: it takes the command
  and the state of the machine (files included) to the exception raised, if any, and
  the state afterwards. \<open>compress_with_ghostscript\<close> returns the same pair.
\<close>

definition compress_with_ghostscript ::
  "('path::linorder) gs_env \<Rightarrow> (string list \<Rightarrow> 'w \<Rightarrow> py_error option \<times> 'w) \<Rightarrow>
   'path \<Rightarrow> 'path \<Rightarrow> string \<Rightarrow> 'path option \<Rightarrow> 'w \<Rightarrow> py_error option \<times> 'w" where
  "compress_with_ghostscript env run input_path output_path quality gs_path world =
     (let gs = find_ghostscript env gs_path
      in case gs of
           None \<Rightarrow> (Some gs_not_found, world)
         | Some g \<Rightarrow>
             if \<not> truthy gs then (Some gs_not_found, world)
             else
               run [g, ''-sDEVICE=pdfwrite'', ''-dCompatibilityLevel=1.4'',
                    ''-dPDFSETTINGS='' @ pdf_setting quality, ''-dNOPAUSE'', ''-dBATCH'',
                    ''-dQUIET'', ''-sOutputFile='' @ path_str env output_path,
                    path_str env input_path]
                 world)"

text \<open>
  A machine on which no Ghostscript is installed and no path exists, and a backend
  that, if it were run, would record its command.
\<close>

definition bare_env :: "string gs_env" where
  "bare_env =
     \<lparr>path_exists = (\<lambda>p. False), path_str = (\<lambda>p. p), which = (\<lambda>name. None),
      glob_gswin64c = [], glob_gswin32c = []\<rparr>"

definition recording_run :: "string list \<Rightarrow> string list list \<Rightarrow> py_error option \<times> string list list" where
  "recording_run cmd world = (None, world @ [cmd])"

section \<open>Properties of split\_pdf\<close>

subsection \<open>remove\_last\_page in the two branches\<close>

lemma foldl_add_page: "foldl add_page acc ps = acc @ ps"
  by (induction ps arbitrary: acc) (simp_all add: add_page_def)

text \<open>The fallback removes the last page, and returns an empty writer as it is.\<close>

lemma remove_last_page_fallback: "remove_last_page None w = Inr (butlast w)"
  by (simp add: remove_last_page_def foldl_add_page)

text \<open>
  The primary path passes the page number \<open>-1\<close>, which the library's method
  takes to be out of range: the writer comes back with all its pages.
\<close>

lemma remove_last_page_library: "remove_last_page (Some writer_remove_page) w = Inr w"
  by (simp add: remove_last_page_def writer_remove_page_def)

lemma rollback_returns_fallback: "rollback_returns None"
proof -
  have "butlast w \<noteq> []" if "1 < length w" for w :: "'a list"
    using that by (cases w rule: rev_cases) auto
  then show ?thesis
    by (simp add: rollback_returns_def remove_last_page_fallback)
qed

lemma rollback_returns_library: "rollback_returns (Some writer_remove_page)"
  by (auto simp: rollback_returns_def remove_last_page_library)

text \<open>A method that did remove the last page would qualify as well.\<close>

lemma rollback_returns_removing:
  assumes "\<forall>pages. pages \<noteq> [] \<longrightarrow> f pages (- 1) = Inr (butlast pages)"
  shows "rollback_returns (Some f)" and "same_removal (Some f) None" and "same_removal None (Some f)"
proof -
  have b: "butlast w \<noteq> []" if "1 < length w" for w :: "'a list"
    using that by (cases w rule: rev_cases) auto
  have r: "remove_last_page (Some f) w = Inr (butlast w)" if "1 < length w" for w
  proof -
    from that have "w \<noteq> []" by auto
    with assms show ?thesis by (simp add: remove_last_page_def)
  qed
  from b r show "rollback_returns (Some f)"
    by (simp add: rollback_returns_def)
  from r show "same_removal (Some f) None" "same_removal None (Some f)"
    by (simp_all add: same_removal_def remove_last_page_fallback)
qed

lemma same_removal_refl: "same_removal remove_page remove_page"
  by (simp add: same_removal_def)

subsection \<open>One iteration\<close>

text \<open>
  The iteration in terms of the outcome of \<open>remove_last_page\<close>: keep accumulating;
  or, on overflow with more than one page, raise what the removal raises, or close a
  part with the pages the removal returned and either start the next part with the
  page or write the page alone.
\<close>

lemma loop_body_cases:
  "loop_body rp ser base mb s page =
    (if int (length (ser (writer s @ [page]))) > mb \<and> writer s \<noteq> [] then
       (case remove_last_page rp (writer s @ [page]) of
          Inl e \<Rightarrow> Inl e
        | Inr w1 \<Rightarrow>
            Inr (if int (length (ser [page])) > mb then
                   \<lparr>part_index = part_index s + 2, writer = [],
                    written = written s @
                      [\<lparr>part_name = part_file_name base (part_index s),
                        part_pages = w1, part_bytes = ser w1\<rparr>,
                       \<lparr>part_name = part_file_name base (part_index s + 1),
                        part_pages = [page], part_bytes = ser [page]\<rparr>]\<rparr>
                 else
                   \<lparr>part_index = part_index s + 1, writer = [page],
                    written = written s @
                      [\<lparr>part_name = part_file_name base (part_index s),
                        part_pages = w1, part_bytes = ser w1\<rparr>]\<rparr>))
     else Inr (s\<lparr>writer := writer s @ [page]\<rparr>))"
proof -
  have l: "1 < length (writer s @ [page]) \<longleftrightarrow> writer s \<noteq> []"
    by (cases "writer s") simp_all
  show ?thesis
    unfolding loop_body_def Let_def bytes_for_writer_def add_page_def
    by (simp add: l split: sum.splits)
qed

lemma loop_body_keep:
  assumes "\<not> (int (length (ser (writer s @ [page]))) > mb \<and> writer s \<noteq> [])"
  shows "loop_body rp ser base mb s page = Inr (s\<lparr>writer := writer s @ [page]\<rparr>)"
  by (subst loop_body_cases) (rule if_not_P [OF assms])

lemma loop_body_roll:
  assumes "int (length (ser (writer s @ [page]))) > mb \<and> writer s \<noteq> []"
    and "remove_last_page rp (writer s @ [page]) = Inr w1"
  shows "loop_body rp ser base mb s page =
    Inr (if int (length (ser [page])) > mb then
           \<lparr>part_index = part_index s + 2, writer = [],
            written = written s @
              [\<lparr>part_name = part_file_name base (part_index s),
                part_pages = w1, part_bytes = ser w1\<rparr>,
               \<lparr>part_name = part_file_name base (part_index s + 1),
                part_pages = [page], part_bytes = ser [page]\<rparr>]\<rparr>
         else
           \<lparr>part_index = part_index s + 1, writer = [page],
            written = written s @
              [\<lparr>part_name = part_file_name base (part_index s),
                part_pages = w1, part_bytes = ser w1\<rparr>]\<rparr>)"
  by (subst loop_body_cases) (simp only: if_P [OF assms(1)] assms(2) sum.case)

lemma loop_body_fallback:
  "loop_body None ser base mb s page =
    Inr (if int (length (ser (writer s @ [page]))) > mb \<and> writer s \<noteq> [] then
           (if int (length (ser [page])) > mb then
              \<lparr>part_index = part_index s + 2, writer = [],
               written = written s @
                 [\<lparr>part_name = part_file_name base (part_index s),
                   part_pages = writer s, part_bytes = ser (writer s)\<rparr>,
                  \<lparr>part_name = part_file_name base (part_index s + 1),
                   part_pages = [page], part_bytes = ser [page]\<rparr>]\<rparr>
            else
              \<lparr>part_index = part_index s + 1, writer = [page],
               written = written s @
                 [\<lparr>part_name = part_file_name base (part_index s),
                   part_pages = writer s, part_bytes = ser (writer s)\<rparr>]\<rparr>)
         else s\<lparr>writer := writer s @ [page]\<rparr>)"
  by (simp add: loop_body_cases remove_last_page_fallback)


lemma loop_body_returns:
  assumes "rollback_returns rp"
  obtains s' where "loop_body rp ser base mb s page = Inr s'"
proof (cases "int (length (ser (writer s @ [page]))) > mb \<and> writer s \<noteq> []")
  case True
  then have "1 < length (writer s @ [page])" by (cases "writer s") simp_all
  with assms obtain w1 where "remove_last_page rp (writer s @ [page]) = Inr w1"
    unfolding rollback_returns_def by blast
  with True that show ?thesis by (simp add: loop_body_cases)
next
  case False
  with that show ?thesis by (simp add: loop_body_cases)
qed

subsection \<open>The loop\<close>

lemma split_loop_rule:
  assumes "rollback_returns rp" and "I d s"
    and "\<And>d s page s'. I d s \<Longrightarrow> loop_body rp ser base mb s page = Inr s' \<Longrightarrow> I (d @ [page]) s'"
  shows "\<exists>s'. split_loop rp ser base mb doc s = Inr s' \<and> I (d @ doc) s'"
  using assms(2)
proof (induction doc arbitrary: d s)
  case Nil
  then show ?case by simp
next
  case (Cons page rest)
  obtain s1 where s1: "loop_body rp ser base mb s page = Inr s1"
    using loop_body_returns [OF assms(1)] by blast
  with Cons.prems have "I (d @ [page]) s1" by (rule assms(3))
  from Cons.IH [OF this] s1 show ?case by simp
qed

lemma names_ok_snoc:
  "names_ok base (fs @ [f]) \<longleftrightarrow>
     names_ok base fs \<and> part_name f = part_file_name base (Suc (length fs))"
  by (auto simp: names_ok_def)

lemma snoc2: "xs @ [a, b] = (xs @ [a]) @ [b]"
  by simp

subsection \<open>What holds in either branch\<close>

lemma emit_inv_init: "emit_inv base [] \<lparr>part_index = 1, writer = [], written = []\<rparr>"
  by (simp add: emit_inv_def names_ok_def)

lemma emit_inv_step:
  assumes rr: "rollback_returns rp"
    and inv: "emit_inv base d s"
    and body: "loop_body rp ser base mb s page = Inr s'"
  shows "emit_inv base (d @ [page]) s'"
proof (cases "int (length (ser (writer s @ [page]))) > mb \<and> writer s \<noteq> []")
  case False
  with body have "s' = s\<lparr>writer := writer s @ [page]\<rparr>"
    by (simp add: loop_body_cases)
  with inv show ?thesis by (simp add: emit_inv_def)
next
  case True
  then have "1 < length (writer s @ [page])" by (cases "writer s") simp_all
  with rr obtain w1 where w1: "remove_last_page rp (writer s @ [page]) = Inr w1" "w1 \<noteq> []"
    unfolding rollback_returns_def by blast
  show ?thesis
  proof (cases "int (length (ser [page])) > mb")
    case solo: True
    with True body w1 have "s' = \<lparr>part_index = part_index s + 2, writer = [],
        written = written s @
          [\<lparr>part_name = part_file_name base (part_index s),
            part_pages = w1, part_bytes = ser w1\<rparr>,
           \<lparr>part_name = part_file_name base (part_index s + 1),
            part_pages = [page], part_bytes = ser [page]\<rparr>]\<rparr>"
      by (simp add: loop_body_cases)
    with inv w1(2) show ?thesis
      by (simp add: emit_inv_def snoc2 names_ok_snoc del: append_assoc)
  next
    case False
    with True body w1 have "s' = \<lparr>part_index = part_index s + 1, writer = [page],
        written = written s @
          [\<lparr>part_name = part_file_name base (part_index s),
            part_pages = w1, part_bytes = ser w1\<rparr>]\<rparr>"
      by (simp add: loop_body_cases)
    with inv w1(2) show ?thesis
      by (simp add: emit_inv_def names_ok_snoc)
  qed
qed

text \<open>
  The run as a whole, in either branch: it returns; every file has a page; files are
  written exactly when the document has a page; the files are numbered from 1.
\<close>

lemma split_pdf_emits:
  assumes "rollback_returns rp"
  shows "\<exists>fs. split_pdf rp ser base mb doc = Inr fs \<and> (\<forall>f \<in> set fs. part_pages f \<noteq> []) \<and>
           (fs = [] \<longleftrightarrow> doc = []) \<and> names_ok base fs"
proof -
  have "\<exists>s. split_loop rp ser base mb doc \<lparr>part_index = 1, writer = [], written = []\<rparr> = Inr s \<and>
      emit_inv base ([] @ doc) s"
  proof (rule split_loop_rule [where I = "emit_inv base" and d = "[]"])
    show "rollback_returns rp" by fact
    show "emit_inv base [] \<lparr>part_index = 1, writer = [], written = []\<rparr>"
      by (rule emit_inv_init)
    show "emit_inv base (d @ [page]) s'"
      if "emit_inv base d s" "loop_body rp ser base mb s page = Inr s'" for d s page s'
      using assms that by (rule emit_inv_step)
  qed
  then obtain s
    where s: "split_loop rp ser base mb doc \<lparr>part_index = 1, writer = [], written = []\<rparr> = Inr s"
      and inv: "emit_inv base doc s"
    by auto
  from inv have "\<forall>f \<in> set (flush ser base s). part_pages f \<noteq> []"
    and "flush ser base s = [] \<longleftrightarrow> doc = []"
    and "names_ok base (flush ser base s)"
    by (auto simp: emit_inv_def flush_def names_ok_snoc)
  with s show ?thesis by (simp add: split_pdf_def)
qed

subsection \<open>What holds in the fallback branch\<close>

lemma parts_ok_snoc:
  "parts_ok ser mb (fs @ [f]) \<longleftrightarrow>
     parts_ok ser mb fs \<and> part_bytes f = ser (part_pages f) \<and> part_pages f \<noteq> [] \<and>
     (int (length (part_bytes f)) \<le> mb \<or> length (part_pages f) = 1)"
  by (auto simp: parts_ok_def)

lemma split_inv_init: "split_inv ser base mb [] \<lparr>part_index = 1, writer = [], written = []\<rparr>"
  by (simp add: split_inv_def parts_ok_def names_ok_def)

lemma split_inv_step:
  assumes inv: "split_inv ser base mb d s"
    and body: "loop_body None ser base mb s page = Inr s'"
  shows "split_inv ser base mb (d @ [page]) s'"
proof -
  let ?over = "int (length (ser (writer s @ [page]))) > mb \<and> writer s \<noteq> []"
  let ?solo = "int (length (ser [page])) > mb"
  note eq = body [unfolded loop_body_fallback]
  consider (keep) "\<not> ?over" | (roll) "?over" "\<not> ?solo" | (both) "?over" "?solo"
    by blast
  then show ?thesis
  proof cases
    case keep
    with eq have s': "s' = s\<lparr>writer := writer s @ [page]\<rparr>" by auto
    from keep inv show ?thesis
      unfolding s' split_inv_def by (cases "writer s") auto
  next
    case roll
    with eq have s': "s' = \<lparr>part_index = part_index s + 1, writer = [page],
               written = written s @
                 [\<lparr>part_name = part_file_name base (part_index s),
                   part_pages = writer s, part_bytes = ser (writer s)\<rparr>]\<rparr>" by auto
    from roll inv show ?thesis
      unfolding s' split_inv_def by (simp add: parts_ok_snoc names_ok_snoc)
  next
    case both
    with eq have s': "s' = \<lparr>part_index = part_index s + 2, writer = [],
               written = written s @
                 [\<lparr>part_name = part_file_name base (part_index s),
                   part_pages = writer s, part_bytes = ser (writer s)\<rparr>,
                  \<lparr>part_name = part_file_name base (part_index s + 1),
                   part_pages = [page], part_bytes = ser [page]\<rparr>]\<rparr>" by auto
    from both inv show ?thesis
      unfolding s' split_inv_def by (simp add: snoc2 parts_ok_snoc names_ok_snoc del: append_assoc)
  qed
qed

text \<open>
  The run in the fallback branch: it returns, the files written partition the
  document, every file is the serialisation of its pages and is within the ceiling
  or a single page.
\<close>

lemma split_pdf_fallback:
  "\<exists>fs. split_pdf None ser base mb doc = Inr fs \<and> concat (map part_pages fs) = doc \<and>
         parts_ok ser mb fs"
proof -
  have "\<exists>s. split_loop None ser base mb doc \<lparr>part_index = 1, writer = [], written = []\<rparr> = Inr s \<and>
      split_inv ser base mb ([] @ doc) s"
  proof (rule split_loop_rule [where I = "split_inv ser base mb" and d = "[]"])
    show "rollback_returns None" by (rule rollback_returns_fallback)
    show "split_inv ser base mb [] \<lparr>part_index = 1, writer = [], written = []\<rparr>"
      by (rule split_inv_init)
    show "split_inv ser base mb (d @ [page]) s'"
      if "split_inv ser base mb d s" "loop_body None ser base mb s page = Inr s'" for d s page s'
      using that by (rule split_inv_step)
  qed
  then obtain s
    where s: "split_loop None ser base mb doc \<lparr>part_index = 1, writer = [], written = []\<rparr> = Inr s"
      and inv: "split_inv ser base mb doc s"
    by auto
  from inv have "concat (map part_pages (flush ser base s)) = doc"
    and "parts_ok ser mb (flush ser base s)"
    by (auto simp: split_inv_def flush_def bytes_for_writer_def parts_ok_snoc)
  with s show ?thesis by (simp add: split_pdf_def)
qed

subsection \<open>File names\<close>

lemma str_nat_digit: "n < 10 \<Longrightarrow> str_nat n = [digit_char n]"
  by (simp add: str_nat.simps)

lemma str_nat_not_Nil: "str_nat n \<noteq> []"
  by (subst str_nat.simps) simp

lemma digit_char_inj: "a < 10 \<Longrightarrow> b < 10 \<Longrightarrow> digit_char a = digit_char b \<Longrightarrow> a = b"
proof -
  assume "a < 10" "b < 10" "digit_char a = digit_char b"
  moreover have "distinct ''0123456789''" by simp
  ultimately show ?thesis
    unfolding digit_char_def by (simp add: nth_eq_iff_index_eq)
qed

lemma str_nat_inj: "str_nat m = str_nat n \<Longrightarrow> m = n"
proof (induction m arbitrary: n rule: str_nat.induct)
  case (1 m)
  show ?case
  proof (cases "m < 10")
    case True
    with "1.prems" have "[digit_char m] = str_nat n" by (simp add: str_nat_digit)
    then have n: "n < 10" using str_nat_not_Nil [of "n div 10"]
      by (subst (asm) str_nat.simps) (auto split: if_splits)
    with True "1.prems" show ?thesis by (simp add: str_nat_digit digit_char_inj)
  next
    case False
    then have m: "str_nat m = str_nat (m div 10) @ [digit_char (m mod 10)]"
      by (subst str_nat.simps) simp
    have n: "\<not> n < 10"
    proof
      assume "n < 10"
      with "1.prems" m str_nat_not_Nil [of "m div 10"] show False
        by (simp add: str_nat_digit)
    qed
    then have "str_nat n = str_nat (n div 10) @ [digit_char (n mod 10)]"
      by (subst str_nat.simps) simp
    with m "1.prems" have "str_nat (m div 10) = str_nat (n div 10)"
      and "digit_char (m mod 10) = digit_char (n mod 10)" by simp_all
    with "1.IH" [OF False] have "m div 10 = n div 10" "m mod 10 = n mod 10"
      by (simp_all add: digit_char_inj)
    then show ?thesis by (metis div_mult_mod_eq)
  qed
qed

lemma part_file_name_inj: "part_file_name base i = part_file_name base j \<Longrightarrow> i = j"
  by (simp add: part_file_name_def str_nat_inj)

lemma distinct_part_file_names: "distinct (map (part_file_name base) [i..<j])"
  by (simp add: distinct_map inj_on_def part_file_name_inj)

subsection \<open>Runs of the model\<close>

lemmas run_simps =
  split_pdf_def flush_def bytes_for_writer_def part_file_name_def str_nat_digit digit_char_def

text \<open>
  A document of five pages of 3 bytes under a ceiling of 10 bytes, in the two
  branches. In the fallback the page that overflows is taken back; in the primary
  path it stays in the part that is closed and is written again in the next one.
\<close>

lemma run_five_pages_fallback:
  "split_pdf None sized_serialize ''doc'' 10 [3, 3, 3, 3, 3] =
     Inr [\<lparr>part_name = ''doc_part1.pdf'', part_pages = [3, 3, 3],
            part_bytes = replicate 9 (CHR ''x'')\<rparr>,
          \<lparr>part_name = ''doc_part2.pdf'', part_pages = [3, 3],
            part_bytes = replicate 6 (CHR ''x'')\<rparr>]"
  by (simp add: run_simps loop_body_fallback sized_serialize_def)

section \<open>The claims about split\_pdf\<close>

text \<open>
  The claims that hold in both branches are stated for every \<open>remove_page\<close> that
  satisfies \<open>rollback_returns\<close>, which the fallback (\<open>rollback_returns_fallback\<close>)
  and the library's method (\<open>rollback_returns_library\<close>) both do. Each of these
  theorems states first that the run returns the list of files written.
\<close>

subsection \<open>Claims that fail in the primary path\<close>

text \<open>
  \<open>remove_last_page\<close> calls \<open>writer.remove_page(-1)\<close>. The library's method
  counts pages from 0 and takes \<open>-1\<close> to be out of range, so nothing is removed, and
  \<open>split_pdf\<close> closes each part with the page that overflowed still in it. The
  comment in the source (\<open>Remove last page, write the previous part, then start a
  new one\<close>), the name of the function and its fallback, which does remove the page,
  say what was meant. The four evaluations below are runs of the primary path; each
  is followed by what the fallback gives.
\<close>


text \<open>
  In the fallback every file written holds the serialisation of its pages and is
  within \<open>max_bytes\<close> or has exactly one page, for every ceiling and every
  serialiser: the pages of a part closed by a rollback are the pages whose
  serialisation was measured, and accepted, one iteration earlier.
\<close>

lemma split_pdf_size_bound_fallback:
  "\<exists>parts. split_pdf None serialize base_name max_bytes document = Inr parts \<and>
           (\<forall>p \<in> set parts.
              part_bytes p = bytes_for_writer serialize (part_pages p) \<and>
              (int (length (part_bytes p)) \<le> max_bytes \<or> length (part_pages p) = 1))"
  using split_pdf_fallback [of serialize base_name max_bytes document]
  by (auto simp: parts_ok_def bytes_for_writer_def)


text \<open>In the fallback the pages of the files written, in order, are the document.\<close>

lemma split_pdf_complete_fallback:
  "\<exists>parts. split_pdf None serialize base_name max_bytes document = Inr parts \<and>
           concat (map part_pages parts) = document"
  using split_pdf_fallback [of serialize base_name max_bytes document] by blast


text \<open>
  In the fallback the scenario comes out as described, for any five pages whose
  prefixes of two and of three pages are within the ceiling, whose prefix of four
  pages is not, and of which page 4 alone and pages 4 and 5 together are within it.
\<close>

lemma split_pdf_scenario_B_fallback:
  assumes "int (length (serialize [p1, p2])) \<le> max_bytes"
    and "int (length (serialize [p1, p2, p3])) \<le> max_bytes"
    and "int (length (serialize [p1, p2, p3, p4])) > max_bytes"
    and "int (length (serialize [p4])) \<le> max_bytes"
    and "int (length (serialize [p4, p5])) \<le> max_bytes"
  shows "split_pdf None serialize base_name max_bytes [p1, p2, p3, p4, p5] =
     Inr [\<lparr>part_name = part_file_name base_name 1, part_pages = [p1, p2, p3],
            part_bytes = serialize [p1, p2, p3]\<rparr>,
          \<lparr>part_name = part_file_name base_name 2, part_pages = [p4, p5],
            part_bytes = serialize [p4, p5]\<rparr>]"
  using assms
  by (simp add: split_pdf_def flush_def bytes_for_writer_def numeral_2_eq_2 loop_body_fallback)

lemma run_scenario_B_fallback:
  "split_pdf None labelled_serialize ''doc'' (10 * 1024 * 1024)
       [(1, 3000000), (2, 3000000), (3, 3000000), (4, 3000000), (5, 3000000)] =
     Inr [\<lparr>part_name = ''doc_part1.pdf'',
            part_pages = [(1, 3000000), (2, 3000000), (3, 3000000)],
            part_bytes = replicate 9000000 (CHR ''x'')\<rparr>,
          \<lparr>part_name = ''doc_part2.pdf'', part_pages = [(4, 3000000), (5, 3000000)],
            part_bytes = replicate 6000000 (CHR ''x'')\<rparr>]"
  by (simp add: run_simps loop_body_fallback labelled_serialize_def)


text \<open>
  In the fallback the function never raises and returns the pages without the last
  one; the writer with no page is returned as it is.
\<close>

lemma remove_last_page_fallback_result:
  "remove_last_page None w = Inr (butlast w) \<and> remove_last_page None [] = Inr []"
  by (simp add: remove_last_page_fallback)

lemma remove_last_page_library_empty: "remove_last_page (Some writer_remove_page) [] = Inr []"
  by (rule remove_last_page_library)

subsection \<open>The ceiling is not checked\<close>

text \<open>
  \<^bold>\<open>C3\<close> (a ceiling that is zero or negative). \<open>split_pdf\<close> has no check of
  \<open>max_bytes\<close>, at entry or anywhere else, and raises no exception of its own. With
  \<open>max_bytes = 0\<close> and a document of two pages the run in the fallback returns
  normally and has written two files.
\<close>

theorem split_pdf_zero_ceiling_counterexample:
  "split_pdf None sized_serialize ''doc'' 0 [5, 7] =
     Inr [\<lparr>part_name = ''doc_part1.pdf'', part_pages = [5], part_bytes = replicate 5 (CHR ''x'')\<rparr>,
          \<lparr>part_name = ''doc_part2.pdf'', part_pages = [7], part_bytes = replicate 7 (CHR ''x'')\<rparr>]"
  by (simp add: run_simps loop_body_fallback sized_serialize_def)

text \<open>
  \<^bold>\<open>C3\<close>, as the code has it. For \<open>max_bytes \<le> 0\<close> the run does not fail where
  \<open>remove_last_page\<close> returns, as it does in both branches: it goes through the
  same loop as for any other ceiling and returns the files written, and files are
  written exactly when the document has a page.
\<close>

theorem split_pdf_nonpositive_ceiling:
  assumes "max_bytes \<le> 0" and "rollback_returns remove_page"
  shows "\<exists>parts. split_pdf remove_page serialize base_name max_bytes document = Inr parts \<and>
           (parts = [] \<longleftrightarrow> document = [])"
  using split_pdf_emits [OF assms(2), of serialize base_name max_bytes document] by blast

text \<open>Ceiling 0 and two pages, in the fallback and in the primary path.\<close>

theorem split_pdf_nonpositive_ceiling_witness:
  "(0::int) \<le> 0 \<and>
   (\<exists>parts. split_pdf None sized_serialize ''doc'' 0 [5, 7] = Inr parts \<and> parts \<noteq> []) \<and>
   (\<exists>parts. split_pdf (Some writer_remove_page) sized_serialize ''doc'' 0 [5, 7] = Inr parts \<and>
      parts \<noteq> [])"
  using split_pdf_nonpositive_ceiling [OF _ rollback_returns_fallback, of 0 sized_serialize "''doc''" "[5, 7]"]
    split_pdf_nonpositive_ceiling [OF _ rollback_returns_library, of 0 sized_serialize "''doc''" "[5, 7]"]
  by auto

subsection \<open>Claims that hold in both branches\<close>

text \<open>
  \<^bold>\<open>C4\<close> (non-emptiness). Every file written has at least one page, and no file
  is written exactly when the document has no page; the run on the empty document
  returns normally, with no file. This holds for every ceiling, valid or not.
\<close>

theorem split_pdf_nonempty_parts:
  assumes "rollback_returns remove_page"
  shows "\<exists>parts. split_pdf remove_page serialize base_name max_bytes document = Inr parts \<and>
           (\<forall>p \<in> set parts. 1 \<le> length (part_pages p)) \<and>
           (parts = [] \<longleftrightarrow> document = [])"
proof -
  from split_pdf_emits [OF assms, of serialize base_name max_bytes document] obtain parts
    where r: "split_pdf remove_page serialize base_name max_bytes document = Inr parts"
      and ne: "\<forall>p \<in> set parts. part_pages p \<noteq> []"
      and e: "parts = [] \<longleftrightarrow> document = []"
    by blast
  from ne have "\<forall>p \<in> set parts. 1 \<le> length (part_pages p)"
    by (simp add: Suc_le_eq)
  with r e show ?thesis by blast
qed

text \<open>
  The empty document and the five-page document in the fallback, and the five-page
  document in the primary path.
\<close>

theorem split_pdf_nonempty_parts_witness:
  "(\<exists>parts. split_pdf None sized_serialize ''doc'' 10 [] = Inr parts \<and> parts = []) \<and>
   (\<exists>parts. split_pdf None sized_serialize ''doc'' 10 [3, 3, 3, 3, 3] = Inr parts \<and>
      parts \<noteq> [] \<and> list_all (\<lambda>p. 1 \<le> length (part_pages p)) parts) \<and>
   (\<exists>parts. split_pdf (Some writer_remove_page) sized_serialize ''doc'' 10 [3, 3, 3, 3, 3] = Inr parts \<and>
      parts \<noteq> [] \<and> list_all (\<lambda>p. 1 \<le> length (part_pages p)) parts)"
  using split_pdf_nonempty_parts [OF rollback_returns_fallback, of sized_serialize "''doc''" 10 "[]"]
    split_pdf_nonempty_parts [OF rollback_returns_fallback, of sized_serialize "''doc''" 10 "[3, 3, 3, 3, 3]"]
    split_pdf_nonempty_parts [OF rollback_returns_library, of sized_serialize "''doc''" 10 "[3, 3, 3, 3, 3]"]
  by (auto simp: list_all_iff)

text \<open>
  \<^bold>\<open>C8\<close> (numbering). When K files are written, their names, in the order of
  writing, are \<open>{base_name}_part{N}.pdf\<close> for N = 1, 2, ..., K; the names are
  pairwise different, so no write replaces an earlier one and there is one file per
  part.
\<close>

theorem split_pdf_numbering:
  assumes "rollback_returns remove_page"
  shows "\<exists>parts. split_pdf remove_page serialize base_name max_bytes document = Inr parts \<and>
           map part_name parts = map (part_file_name base_name) [1..<Suc (length parts)] \<and>
           distinct (map part_name parts)"
proof -
  from split_pdf_emits [OF assms, of serialize base_name max_bytes document] obtain parts
    where r: "split_pdf remove_page serialize base_name max_bytes document = Inr parts"
      and n: "names_ok base_name parts"
    by blast
  from n have "map part_name parts = map (part_file_name base_name) [1..<Suc (length parts)]"
    by (simp add: names_ok_def)
  then show ?thesis using r distinct_part_file_names [of base_name 1 "Suc (length parts)"]
    by simp
qed

text \<open>
  A ceiling of 4 bytes in the fallback: every page closes a part, the page of 5 bytes
  is written alone and oversized, and the five files are numbered 1 to 5.
\<close>

theorem split_pdf_numbering_witness:
  "split_pdf None sized_serialize ''doc'' 4 [3, 3, 5, 3, 3] =
     Inr [\<lparr>part_name = ''doc_part1.pdf'', part_pages = [3], part_bytes = replicate 3 (CHR ''x'')\<rparr>,
          \<lparr>part_name = ''doc_part2.pdf'', part_pages = [3], part_bytes = replicate 3 (CHR ''x'')\<rparr>,
          \<lparr>part_name = ''doc_part3.pdf'', part_pages = [5], part_bytes = replicate 5 (CHR ''x'')\<rparr>,
          \<lparr>part_name = ''doc_part4.pdf'', part_pages = [3], part_bytes = replicate 3 (CHR ''x'')\<rparr>,
          \<lparr>part_name = ''doc_part5.pdf'', part_pages = [3], part_bytes = replicate 3 (CHR ''x'')\<rparr>] \<and>
   map (part_file_name ''doc'') [1..<Suc 5] =
     [''doc_part1.pdf'', ''doc_part2.pdf'', ''doc_part3.pdf'', ''doc_part4.pdf'', ''doc_part5.pdf'']"
proof -
  have run: "split_pdf None sized_serialize ''doc'' 4 [3, 3, 5, 3, 3] =
     Inr [\<lparr>part_name = ''doc_part1.pdf'', part_pages = [3], part_bytes = replicate 3 (CHR ''x'')\<rparr>,
          \<lparr>part_name = ''doc_part2.pdf'', part_pages = [3], part_bytes = replicate 3 (CHR ''x'')\<rparr>,
          \<lparr>part_name = ''doc_part3.pdf'', part_pages = [5], part_bytes = replicate 5 (CHR ''x'')\<rparr>,
          \<lparr>part_name = ''doc_part4.pdf'', part_pages = [3], part_bytes = replicate 3 (CHR ''x'')\<rparr>,
          \<lparr>part_name = ''doc_part5.pdf'', part_pages = [3], part_bytes = replicate 3 (CHR ''x'')\<rparr>]"
    by (simp add: run_simps loop_body_fallback sized_serialize_def)
  show ?thesis
    using split_pdf_numbering [OF rollback_returns_fallback, of sized_serialize "''doc''" 4 "[3, 3, 5, 3, 3]"]
    by (simp add: run upt_conv_Cons)
qed

subsection \<open>Two runs\<close>

lemma loop_body_same_progress:
  assumes rr: "rollback_returns rp1" and sr: "same_removal rp1 rp2"
    and sz: "\<forall>ps. length (ser1 ps) = length (ser2 ps)"
    and sp: "same_progress s t"
  shows "\<exists>s' t'. loop_body rp1 ser1 b1 mb s page = Inr s' \<and>
           loop_body rp2 ser2 b2 mb t page = Inr t' \<and> same_progress s' t'"
proof -
  from sp have w: "writer t = writer s" and i: "part_index t = part_index s"
    and g: "map part_pages (written t) = map part_pages (written s)"
    by (simp_all add: same_progress_def)
  from sz have z: "length (ser2 ps) = length (ser1 ps)" for ps by simp
  show ?thesis
  proof (cases "int (length (ser1 (writer s @ [page]))) > mb \<and> writer s \<noteq> []")
    case False
    then have f2: "\<not> (int (length (ser2 (writer t @ [page]))) > mb \<and> writer t \<noteq> [])"
      by (simp add: w z)
    have "same_progress (s\<lparr>writer := writer s @ [page]\<rparr>) (t\<lparr>writer := writer t @ [page]\<rparr>)"
      by (simp add: same_progress_def w i g)
    with loop_body_keep [where ser = ser1 and s = s and page = page and mb = mb, OF False]
      loop_body_keep [where ser = ser2 and s = t and page = page and mb = mb, OF f2]
    show ?thesis by blast
  next
    case True
    then have t2: "int (length (ser2 (writer t @ [page]))) > mb \<and> writer t \<noteq> []"
      by (simp add: w z)
    from True have l: "1 < length (writer s @ [page])" by (cases "writer s") simp_all
    with rr obtain w1 where w1: "remove_last_page rp1 (writer s @ [page]) = Inr w1"
      unfolding rollback_returns_def by blast
    with sr l have w2: "remove_last_page rp2 (writer t @ [page]) = Inr w1"
      unfolding same_removal_def by (simp add: w)
    from loop_body_roll [where ser = ser1 and s = s and page = page and mb = mb and base = b1,
        OF True w1]
      loop_body_roll [where ser = ser2 and s = t and page = page and mb = mb and base = b2,
        OF t2 w2]
    show ?thesis
      by (simp add: same_progress_def i g z)
  qed
qed

lemma split_loop_same_progress:
  assumes "rollback_returns rp1" and "same_removal rp1 rp2"
    and "\<forall>ps. length (ser1 ps) = length (ser2 ps)"
  shows "same_progress s t \<Longrightarrow>
         \<exists>s' t'. split_loop rp1 ser1 b1 mb doc s = Inr s' \<and>
           split_loop rp2 ser2 b2 mb doc t = Inr t' \<and> same_progress s' t'"
proof (induction doc arbitrary: s t)
  case Nil
  then show ?case by simp
next
  case (Cons page rest)
  from loop_body_same_progress [OF assms Cons.prems, of b1 mb page b2] obtain s1 t1
    where "loop_body rp1 ser1 b1 mb s page = Inr s1" "loop_body rp2 ser2 b2 mb t page = Inr t1"
      "same_progress s1 t1"
    by blast
  with Cons.IH [of s1 t1] show ?case by simp
qed

text \<open>
  \<^bold>\<open>C5\<close> (determinism). In the model a run is a function of its arguments, so two
  runs on the same arguments agree trivially; the theorem says what the partition
  depends on. Two runs on the same document and ceiling produce the same page groups,
  and so the same sequence of page counts, whenever the two serialisers give every
  page sequence the same size (in particular when they are the same serialiser) and
  the last page is removed in the same way (in particular in the same branch),
  whatever the output names.
\<close>

theorem split_pdf_deterministic:
  assumes "rollback_returns rp1" and "same_removal rp1 rp2"
    and "\<forall>pages. length (serialize1 pages) = length (serialize2 pages)"
  shows "\<exists>parts1 parts2.
           split_pdf rp1 serialize1 base_name1 max_bytes document = Inr parts1 \<and>
           split_pdf rp2 serialize2 base_name2 max_bytes document = Inr parts2 \<and>
           map part_pages parts1 = map part_pages parts2 \<and>
           map (\<lambda>p. length (part_pages p)) parts1 = map (\<lambda>p. length (part_pages p)) parts2"
proof -
  let ?s0 = "\<lparr>part_index = 1, writer = [], written = []\<rparr> :: 'a split_state"
  have "same_progress ?s0 ?s0" by (simp add: same_progress_def)
  from split_loop_same_progress [OF assms this, of base_name1 max_bytes document base_name2]
  obtain s t where s: "split_loop rp1 serialize1 base_name1 max_bytes document ?s0 = Inr s"
    and t: "split_loop rp2 serialize2 base_name2 max_bytes document ?s0 = Inr t"
    and st: "same_progress s t"
    by blast
  from st have p: "map part_pages (flush serialize1 base_name1 s) =
      map part_pages (flush serialize2 base_name2 t)"
    by (simp add: same_progress_def flush_def)
  from arg_cong [OF p, of "map length"]
  have "map (\<lambda>p. length (part_pages p)) (flush serialize1 base_name1 s) =
      map (\<lambda>p. length (part_pages p)) (flush serialize2 base_name2 t)"
    by (simp add: comp_def)
  with s t p show ?thesis by (simp add: split_pdf_def)
qed

text \<open>
  Two serialisers that write different bytes of the same number and two output
  names, in the fallback and in the primary path.
\<close>

theorem split_pdf_deterministic_witness:
  "(\<forall>pages. length (sized_serialize pages) = length (sized_serialize_alt pages)) \<and>
   (\<exists>parts1 parts2.
      split_pdf None sized_serialize ''a'' 10 [3, 3, 3, 3, 3] = Inr parts1 \<and>
      split_pdf None sized_serialize_alt ''b'' 10 [3, 3, 3, 3, 3] = Inr parts2 \<and>
      map part_pages parts1 = map part_pages parts2) \<and>
   (\<exists>parts1 parts2.
      split_pdf (Some writer_remove_page) sized_serialize ''a'' 10 [3, 3, 3, 3, 3] = Inr parts1 \<and>
      split_pdf (Some writer_remove_page) sized_serialize_alt ''b'' 10 [3, 3, 3, 3, 3] = Inr parts2 \<and>
      map part_pages parts1 = map part_pages parts2)"
proof -
  have l: "\<forall>pages. length (sized_serialize pages) = length (sized_serialize_alt pages)"
    by (simp add: sized_serialize_def sized_serialize_alt_def)
  from split_pdf_deterministic [OF rollback_returns_fallback same_removal_refl l,
      of "''a''" 10 "[3, 3, 3, 3, 3]" "''b''"]
    split_pdf_deterministic [OF rollback_returns_library same_removal_refl l,
      of "''a''" 10 "[3, 3, 3, 3, 3]" "''b''"] l
  show ?thesis by blast
qed

subsection \<open>The overflow test\<close>

text \<open>
  \<^bold>\<open>C6\<close> (tie-break). When the size of the trial serialisation is at most
  \<open>max_bytes\<close>, equal included, the iteration only keeps the page: the state is
  unchanged but for the writer, nothing is removed and nothing is written. Whenever an
  iteration writes a file, the trial size was strictly greater than \<open>max_bytes\<close>.
  And when the trial size is strictly greater and the writer holds more than one
  page, the iteration does write.
\<close>

theorem loop_body_tie_break:
  "(int (length (bytes_for_writer serialize (add_page (writer s) page))) \<le> max_bytes \<longrightarrow>
      loop_body remove_page serialize base_name max_bytes s page =
        Inr (s\<lparr>writer := add_page (writer s) page\<rparr>)) \<and>
   (\<forall>s'. loop_body remove_page serialize base_name max_bytes s page = Inr s' \<and>
         written s' \<noteq> written s \<longrightarrow>
      max_bytes < int (length (bytes_for_writer serialize (add_page (writer s) page)))) \<and>
   (rollback_returns remove_page \<and> 1 < length (add_page (writer s) page) \<and>
      max_bytes < int (length (bytes_for_writer serialize (add_page (writer s) page))) \<longrightarrow>
      (\<exists>s'. loop_body remove_page serialize base_name max_bytes s page = Inr s' \<and>
         length (written s) < length (written s')))"
proof (intro conjI impI allI)
  assume "int (length (bytes_for_writer serialize (add_page (writer s) page))) \<le> max_bytes"
  then show "loop_body remove_page serialize base_name max_bytes s page =
      Inr (s\<lparr>writer := add_page (writer s) page\<rparr>)"
    by (simp add: loop_body_def Let_def)
next
  fix s'
  assume a: "loop_body remove_page serialize base_name max_bytes s page = Inr s' \<and>
    written s' \<noteq> written s"
  show "max_bytes < int (length (bytes_for_writer serialize (add_page (writer s) page)))"
  proof (rule ccontr)
    assume "\<not> ?thesis"
    then have "loop_body remove_page serialize base_name max_bytes s page =
        Inr (s\<lparr>writer := add_page (writer s) page\<rparr>)"
      by (simp add: loop_body_def Let_def)
    with a show False by auto
  qed
next
  assume a: "rollback_returns remove_page \<and> 1 < length (add_page (writer s) page) \<and>
      max_bytes < int (length (bytes_for_writer serialize (add_page (writer s) page)))"
  then have ne: "writer s \<noteq> []" and l: "1 < length (writer s @ [page])"
    by (auto simp: add_page_def)
  from a l obtain w1 where "remove_last_page remove_page (writer s @ [page]) = Inr w1"
    unfolding rollback_returns_def by blast
  with a ne show "\<exists>s'. loop_body remove_page serialize base_name max_bytes s page = Inr s' \<and>
         length (written s) < length (written s')"
    by (simp add: loop_body_cases bytes_for_writer_def add_page_def)
qed

text \<open>
  A writer of 6 bytes under a ceiling of 10, in the fallback: a page of 4 bytes makes
  exactly 10 and is kept; a page of 5 bytes makes 11 and closes the part.
\<close>

theorem loop_body_tie_break_witness:
  "int (length (bytes_for_writer sized_serialize (add_page [3, 3] 4))) = 10 \<and>
   loop_body None sized_serialize ''doc'' 10
       \<lparr>part_index = 1, writer = [3, 3], written = []\<rparr> 4 =
     Inr \<lparr>part_index = 1, writer = [3, 3, 4], written = []\<rparr> \<and>
   loop_body None sized_serialize ''doc'' 10
       \<lparr>part_index = 1, writer = [3, 3], written = []\<rparr> 5 =
     Inr \<lparr>part_index = 2, writer = [5],
          written = [\<lparr>part_name = ''doc_part1.pdf'', part_pages = [3, 3],
                      part_bytes = replicate 6 (CHR ''x'')\<rparr>]\<rparr>"
proof -
  have "loop_body None sized_serialize ''doc'' 10
       \<lparr>part_index = 1, writer = [3, 3], written = []\<rparr> 5 =
     Inr \<lparr>part_index = 2, writer = [5],
          written = [\<lparr>part_name = ''doc_part1.pdf'', part_pages = [3, 3],
                      part_bytes = replicate 6 (CHR ''x'')\<rparr>]\<rparr>"
    by (simp add: run_simps loop_body_fallback sized_serialize_def)
  then show ?thesis
    using loop_body_tie_break [of sized_serialize "\<lparr>part_index = 1, writer = [3, 3], written = []\<rparr>"
        4 10 None "''doc''"]
    by (simp add: bytes_for_writer_def add_page_def sized_serialize_def)
qed

section \<open>The claim about compress\_with\_ghostscript\<close>

text \<open>
  \<^bold>\<open>C9\<close>. Suppose that no usable path override is given: either none is given and
  discovery finds nothing (none of the three \<open>which\<close> lookups gives a non-empty
  string and neither \<open>glob\<close> finds a file), or one is given and does not exist. Then
  \<open>find_ghostscript\<close> gives no executable and \<open>compress_with_ghostscript\<close> raises
  the \<open>RuntimeError\<close> "Ghostscript not found" without running the backend: for every
  \<open>run\<close> the state of the machine is the one it started in, so no output file has
  been created and the input is untouched.
\<close>

theorem ghostscript_unavailable:
  assumes "gs_path = None \<longrightarrow>
             \<not> truthy (which env ''gs'') \<and> \<not> truthy (which env ''gswin64c'') \<and>
             \<not> truthy (which env ''gswin32c'') \<and>
             glob_gswin64c env = [] \<and> glob_gswin32c env = []"
    and "\<forall>p. gs_path = Some p \<longrightarrow> \<not> path_exists env p"
  shows "\<not> truthy (find_ghostscript env gs_path) \<and>
         compress_with_ghostscript env run input_path output_path quality gs_path world =
           (Some gs_not_found, world)"
proof -
  have f: "\<not> truthy (find_ghostscript env gs_path)"
  proof (cases gs_path)
    case None
    with assms(1) show ?thesis
      by (simp add: find_ghostscript_def py_or_def Let_def truthy_def)
  next
    case (Some p)
    with assms(2) show ?thesis
      by (simp add: find_ghostscript_def truthy_def)
  qed
  then show ?thesis
    by (cases "find_ghostscript env gs_path") (simp_all add: compress_with_ghostscript_def Let_def)
qed

text \<open>
  The bare machine, without an override and with an override that does not exist:
  the backend, which would record its command, has recorded none.
\<close>

theorem ghostscript_unavailable_witness:
  "find_ghostscript bare_env None = None \<and>
   compress_with_ghostscript bare_env recording_run ''in.pdf'' ''out.pdf'' ''medium'' None [] =
     (Some gs_not_found, []) \<and>
   compress_with_ghostscript bare_env recording_run ''in.pdf'' ''out.pdf'' ''medium''
       (Some ''C:/gs/bin/gswin64c.exe'') [] =
     (Some gs_not_found, [])"
  using ghostscript_unavailable [of None bare_env recording_run "''in.pdf''" "''out.pdf''" "''medium''" "[]"]
    ghostscript_unavailable [of "Some ''C:/gs/bin/gswin64c.exe''" bare_env recording_run
      "''in.pdf''" "''out.pdf''" "''medium''" "[]"]
  by (simp add: bare_env_def truthy_def find_ghostscript_def py_or_def)

text \<open>For contrast, a machine with \<open>gs\<close> on the search path: the backend is run.\<close>

lemma ghostscript_found_runs:
  "compress_with_ghostscript
      (bare_env\<lparr>which := (\<lambda>n. if n = ''gs'' then Some ''/usr/bin/gs'' else None)\<rparr>)
      recording_run ''in.pdf'' ''out.pdf'' ''strong'' None [] =
   (None, [[''/usr/bin/gs'', ''-sDEVICE=pdfwrite'', ''-dCompatibilityLevel=1.4'',
            ''-dPDFSETTINGS=/screen'', ''-dNOPAUSE'', ''-dBATCH'', ''-dQUIET'',
            ''-sOutputFile=out.pdf'', ''in.pdf'']])"
  by (simp add: compress_with_ghostscript_def find_ghostscript_def py_or_def truthy_def Let_def
      bare_env_def recording_run_def pdf_setting_def)

end
